theory Spec2Isabelle
  imports Complex_Main "HOL-Library.Log_Nat"
begin

section \<open>Drag to Scroll: the gesture classifier and the inertia engine\<close>

text \<open>
  A shallow embedding of the plugin class \<open>DragToScrollPlugin\<close> of \<open>src/main.ts\<close>
  (the version with settings and inertia). The DOM, the workspace and the frame
  scheduler are collaborators of the plugin: the model keeps of them what the handlers
  read and write. The button index of a mouse event is an integer and its pointer
  coordinate a real: mouse events carry whole pixels, whose differences a double holds
  exactly. The velocity and the scroll amounts are JavaScript numbers, modelled next.
\<close>

subsection \<open>JavaScript numbers\<close>

text \<open>
  A number is a finite double, known by its real value, one of the two infinities, or
  NaN. The two zeros are not told apart: the plugin only compares, multiplies and
  scrolls by its numbers, and none of these distinguishes them.
\<close>

datatype number = Num real | PosInf | NegInf | NaN

instantiation number :: zero
begin

definition zero_number :: number where
  "zero_number = Num 0"

instance ..

end

text \<open>
  Rounding to the nearest double (IEEE 754 binary64, ties to even). For \<open>a > 0\<close>,
  \<open>exponent a\<close> is the integer \<open>e\<close> with \<open>2 ^ e \<le> a < 2 ^ (e + 1)\<close>; doubles
  in that range are the multiples of \<open>2 ^ (e - 52)\<close>, and below \<open>2 ^ (- 1022)\<close> the
  multiples of \<open>2 ^ (- 1074)\<close>; a result of \<open>2 ^ 1024\<close> or more overflows to an
  infinity.
\<close>

definition exponent :: "real \<Rightarrow> int" where
  "exponent a = (if 1 \<le> a then bitlen \<lfloor>a\<rfloor> - 1 else - bitlen (\<lceil>1 / a\<rceil> - 1))"

definition round_half_even :: "real \<Rightarrow> int" where
  "round_half_even x =
     (if x - of_int \<lfloor>x\<rfloor> < 1 / 2 then \<lfloor>x\<rfloor>
      else if 1 / 2 < x - of_int \<lfloor>x\<rfloor> then \<lfloor>x\<rfloor> + 1
      else if even \<lfloor>x\<rfloor> then \<lfloor>x\<rfloor> else \<lfloor>x\<rfloor> + 1)"

definition double_of :: "real \<Rightarrow> number" where
  "double_of x =
     (if x = 0 then Num 0
      else
        let e = max (exponent \<bar>x\<bar>) (- 1022);
            q = 2 powi (e - 52);
            r = of_int (round_half_even (\<bar>x\<bar> / q)) * q
        in if 2 ^ 1024 \<le> r then (if 0 < x then PosInf else NegInf)
           else Num (sgn x * r))"

text \<open>The product of two numbers, as \<open>*\<close> computes it.\<close>

fun times64 :: "number \<Rightarrow> number \<Rightarrow> number" where
  "times64 NaN y = NaN"
| "times64 x NaN = NaN"
| "times64 (Num x) (Num y) = double_of (x * y)"
| "times64 (Num x) PosInf = (if x = 0 then NaN else if 0 < x then PosInf else NegInf)"
| "times64 (Num x) NegInf = (if x = 0 then NaN else if 0 < x then NegInf else PosInf)"
| "times64 PosInf (Num y) = (if y = 0 then NaN else if 0 < y then PosInf else NegInf)"
| "times64 NegInf (Num y) = (if y = 0 then NaN else if 0 < y then NegInf else PosInf)"
| "times64 PosInf PosInf = PosInf"
| "times64 PosInf NegInf = NegInf"
| "times64 NegInf PosInf = NegInf"
| "times64 NegInf NegInf = PosInf"

text \<open>\<open>Math.abs\<close>, and the comparison \<open><\<close>, which is false whenever NaN takes part.\<close>

fun Math_abs :: "number \<Rightarrow> number" where
  "Math_abs (Num x) = Num \<bar>x\<bar>"
| "Math_abs PosInf = PosInf"
| "Math_abs NegInf = PosInf"
| "Math_abs NaN = NaN"

fun less_number :: "number \<Rightarrow> number \<Rightarrow> bool" where
  "less_number NaN y = False"
| "less_number x NaN = False"
| "less_number (Num x) (Num y) = (x < y)"
| "less_number (Num x) PosInf = True"
| "less_number (Num x) NegInf = False"
| "less_number PosInf y = False"
| "less_number NegInf (Num y) = True"
| "less_number NegInf PosInf = True"
| "less_number NegInf NegInf = False"


subsection \<open>Settings\<close>

text \<open>The union type \<open>'none' | 'ctrl' | 'shift' | 'alt'\<close>.\<close>

datatype modifier = ModNone | ModCtrl | ModShift | ModAlt

text \<open>
  The interface \<open>DragToScrollSettings\<close>. The friction is the number that the
  multiplication of the inertia step reads from the field; nothing validates what was
  persisted, so it may be any number, NaN included (what a persisted value that is not
  numeric multiplies as).
\<close>

record DragToScrollSettings =
  mouseButton :: int
  modifierKey :: modifier
  friction :: number

subsection \<open>Persisted data and \<open>loadSettings\<close>\<close>

text \<open>
  \<open>loadData()\<close> returns whatever JSON value was persisted (\<open>null\<close> when nothing
  was), so \<open>loadSettings\<close> is modelled on untyped values. \<open>JObj\<close> carries the
  members of an object as the JSON text lists them.
\<close>

datatype json =
    JNull
  | JBool bool
  | JNum real
  | JStr string
  | JArr "json list"
  | JObj "(string \<times> json) list"

text \<open>
  The object that \<open>Object.assign\<close> fills: its own properties and its prototype,
  \<open>None\<close> for \<open>Object.prototype\<close> (the prototype of \<open>{}\<close>) and otherwise the value
  that was installed as prototype (\<open>JNull\<close> for no prototype).
\<close>

record object =
  props :: "string \<rightharpoonup> json"
  proto :: "json option"

text \<open>The decimal name of an index property (\<open>0\<close>, \<open>1\<close>, ...).\<close>

fun index_key :: "nat \<Rightarrow> string" where
  "index_key n =
     (if n < 10 then [''0123456789'' ! n]
      else index_key (n div 10) @ [''0123456789'' ! (n mod 10)])"

text \<open>
  The properties of a parsed object: of members with the same name the last one counts.
  (The order in which JavaScript lists them differs, and has no influence here: the
  names are distinct.)
\<close>

fun members :: "(string \<times> json) list \<Rightarrow> (string \<times> json) list" where
  "members [] = []"
| "members ((k, v) # ps) = (if k \<in> fst ` set ps then members ps else (k, v) # members ps)"

text \<open>
  The own enumerable properties that \<open>Object.assign\<close> reads from one source, in
  assignment order: none for \<open>null\<close>, a boolean or a number; the index properties of
  a string or an array; the properties of an object.
\<close>

fun ownEnumerable :: "json \<Rightarrow> (string \<times> json) list" where
  "ownEnumerable JNull = []"
| "ownEnumerable (JBool b) = []"
| "ownEnumerable (JNum x) = []"
| "ownEnumerable (JStr s) = zip (map index_key [0..<length s]) (map (\<lambda>c. JStr [c]) s)"
| "ownEnumerable (JArr xs) = zip (map index_key [0..<length xs]) xs"
| "ownEnumerable (JObj ps) = members ps"

text \<open>
  \<open>Object.assign\<close> writes with the ordinary assignment \<open>target[k] = v\<close>. This
  creates or updates an own property, except for the name \<open>__proto__\<close> while the
  target has no own property of that name and inherits the accessor of
  \<open>Object.prototype\<close>: then the setter runs, which installs an object or \<open>null\<close>
  as the prototype, ignores any other value, and creates no property. The accessor is
  inherited unless the prototype is \<open>null\<close> or is an object with an own property
  \<open>__proto__\<close> (a parsed object can have one).
\<close>

fun is_object_or_null :: "json \<Rightarrow> bool" where
  "is_object_or_null JNull = True"
| "is_object_or_null (JArr xs) = True"
| "is_object_or_null (JObj ps) = True"
| "is_object_or_null v = False"

fun inherits_proto_accessor :: "json option \<Rightarrow> bool" where
  "inherits_proto_accessor None = True"
| "inherits_proto_accessor (Some JNull) = False"
| "inherits_proto_accessor (Some (JObj ps)) = (''__proto__'' \<notin> fst ` set ps)"
| "inherits_proto_accessor (Some v) = True"

definition put :: "string \<Rightarrow> json \<Rightarrow> object \<Rightarrow> object" where
  "put k v obj =
     (if k = ''__proto__'' \<and> props obj k = None \<and> inherits_proto_accessor (proto obj)
      then (if is_object_or_null v then obj\<lparr>proto := Some v\<rparr> else obj)
      else obj\<lparr>props := (props obj)(k \<mapsto> v)\<rparr>)"

definition assignFrom :: "json \<Rightarrow> object \<Rightarrow> object" where
  "assignFrom src tgt = fold (\<lambda>(k, v) obj. put k v obj) (ownEnumerable src) tgt"

definition Object_assign :: "object \<Rightarrow> json list \<Rightarrow> object" where
  "Object_assign tgt srcs = fold assignFrom srcs tgt"

definition DEFAULT_SETTINGS :: json where
  "DEFAULT_SETTINGS =
     JObj [(''mouseButton'', JNum 2), (''modifierKey'', JStr ''none''), (''friction'', JNum 0.92)]"

definition loadSettings :: "json \<Rightarrow> object" where
  "loadSettings data =
     Object_assign \<lparr>props = Map.empty, proto = None\<rparr> [DEFAULT_SETTINGS, data]"

text \<open>
  The value ranges the settings panel offers, as the specification words them: the
  button is one of 0, 1, 2; the modifier is one of the four names; the friction is a
  number between 0.80 and 0.99.
\<close>

definition well_formed_field :: "string \<Rightarrow> json \<Rightarrow> bool" where
  "well_formed_field k v =
     (if k = ''mouseButton'' then v \<in> set [JNum 0, JNum 1, JNum 2]
      else if k = ''modifierKey'' then v \<in> set [JStr ''none'', JStr ''ctrl'', JStr ''shift'', JStr ''alt'']
      else if k = ''friction'' then (case v of JNum x \<Rightarrow> 0.80 \<le> x \<and> x \<le> 0.99 | _ \<Rightarrow> False)
      else True)"

text \<open>
  The specification's reading of the merge, for one field: a field that the persisted
  data lacks, or holds with a malformed value, has the default's value after loading.
\<close>

definition keeps_default :: "json \<Rightarrow> string \<Rightarrow> bool" where
  "keeps_default data k =
     (case map_of (rev (ownEnumerable data)) k of
        None \<Rightarrow> props (loadSettings data) k = map_of (ownEnumerable DEFAULT_SETTINGS) k
      | Some v \<Rightarrow> well_formed_field k v \<or>
                 props (loadSettings data) k = map_of (ownEnumerable DEFAULT_SETTINGS) k)"

subsection \<open>The collaborators\<close>

text \<open>A DOM element is known by an identifier.\<close>

type_synonym element = nat

text \<open>
  A \<open>MarkdownView\<close>: the result of \<open>getMode()\<close> and, for a selector, the result of
  \<open>containerEl.querySelector\<close>.
\<close>

record MarkdownView =
  getMode :: string
  querySelector :: "string \<Rightarrow> element option"

text \<open>
  A \<open>MouseEvent\<close>: the fields the handlers read, and the fourth modifier flag of
  a mouse event, \<open>metaKey\<close>, which they do not read; \<open>closest\<close> is
  \<open>(evt.target as HTMLElement).closest\<close>.
\<close>

record MouseEvent =
  button :: int
  clientY :: real
  ctrlKey :: bool
  altKey :: bool
  shiftKey :: bool
  metaKey :: bool
  closest :: "string \<Rightarrow> element option"

text \<open>What a handler did to the event it was given.\<close>

record dispatch =
  defaultPrevented :: bool
  propagationStopped :: bool

definition untouched :: dispatch where
  "untouched = \<lparr>defaultPrevented = False, propagationStopped = False\<rparr>"

definition preventDefault :: "dispatch \<Rightarrow> dispatch" where
  "preventDefault d = d\<lparr>defaultPrevented := True\<rparr>"

definition stopImmediatePropagation :: "dispatch \<Rightarrow> dispatch" where
  "stopImmediatePropagation d = d\<lparr>propagationStopped := True\<rparr>"

subsection \<open>The plugin's state\<close>

text \<open>
  The fields of the class, followed by the parts of the browser the plugin acts on:
  the handles of its animation-frame callbacks that are still to run, the next handle
  the scheduler gives out, the calls of \<open>scrollBy(0, amount)\<close> made so far (oldest
  first) and whether \<open>document.body\<close> carries the class \<open>is-dragging-to-scroll\<close>.
\<close>

record plugin =
  settings :: DragToScrollSettings
  isDragging :: bool
  startY :: real
  didDrag :: bool
  lastVelocityY :: number
  animationFrameId :: "nat option"
  frameCallbacks :: "nat list"
  nextFrameHandle :: nat
  scrollLog :: "(element \<times> number) list"
  bodyDragging :: bool

definition DRAG_THRESHOLD :: real where
  "DRAG_THRESHOLD = 5"

text \<open>The state after construction, with the settings that were loaded.\<close>

definition initial :: "DragToScrollSettings \<Rightarrow> plugin" where
  "initial cfg =
     \<lparr>settings = cfg, isDragging = False, startY = 0, didDrag = False, lastVelocityY = 0,
      animationFrameId = None, frameCallbacks = [], nextFrameHandle = 1, scrollLog = [],
      bodyDragging = False\<rparr>"

subsection \<open>The frame scheduler\<close>

text \<open>
  \<open>requestAnimationFrame\<close> registers the callback under a fresh handle and returns
  the handle; \<open>cancelAnimationFrame\<close> removes the callback registered under a handle,
  if there is one.
\<close>

definition requestAnimationFrame :: "plugin \<Rightarrow> nat \<times> plugin" where
  "requestAnimationFrame p =
     (nextFrameHandle p,
      p\<lparr>frameCallbacks := frameCallbacks p @ [nextFrameHandle p],
        nextFrameHandle := nextFrameHandle p + 1\<rparr>)"

definition cancelAnimationFrame :: "nat \<Rightarrow> plugin \<Rightarrow> plugin" where
  "cancelAnimationFrame h p = p\<lparr>frameCallbacks := removeAll h (frameCallbacks p)\<rparr>"

text \<open>The truth value JavaScript gives a \<open>number | null\<close> in a condition.\<close>

fun truthy :: "nat option \<Rightarrow> bool" where
  "truthy None = False"
| "truthy (Some h) = (h \<noteq> 0)"

definition scrollBy :: "element \<Rightarrow> number \<Rightarrow> plugin \<Rightarrow> plugin" where
  "scrollBy el amount p = p\<lparr>scrollLog := scrollLog p @ [(el, amount)]\<rparr>"

subsection \<open>The handlers\<close>

definition getScrollableElement :: "MarkdownView option \<Rightarrow> element option" where
  "getScrollableElement view =
     (case view of
        None \<Rightarrow> None
      | Some v \<Rightarrow>
          if getMode v = ''source'' then querySelector v ''.cm-scroller''
          else if getMode v = ''preview'' then querySelector v ''.markdown-preview-view''
          else None)"

definition stopInertiaScroll :: "plugin \<Rightarrow> plugin" where
  "stopInertiaScroll p =
     (let p1 = (if truthy (animationFrameId p)
                then (cancelAnimationFrame (the (animationFrameId p)) p)\<lparr>animationFrameId := None\<rparr>
                else p)
      in p1\<lparr>lastVelocityY := 0\<rparr>)"

definition inertiaStep :: "MarkdownView option \<Rightarrow> plugin \<Rightarrow> plugin" where
  "inertiaStep view p =
     (case getScrollableElement view of
        None \<Rightarrow> stopInertiaScroll p
      | Some el \<Rightarrow>
          if less_number (Math_abs (lastVelocityY p)) (Num 1) then stopInertiaScroll p
          else
            let p1 = scrollBy el (lastVelocityY p) p;
                p2 = p1\<lparr>lastVelocityY := times64 (lastVelocityY p1) (friction (settings p1))\<rparr>;
                (h, p3) = requestAnimationFrame p2
            in p3\<lparr>animationFrameId := Some h\<rparr>)"

definition startInertiaScroll :: "plugin \<Rightarrow> plugin" where
  "startInertiaScroll p =
     (let p1 = (if truthy (animationFrameId p)
                then cancelAnimationFrame (the (animationFrameId p)) p
                else p);
          (h, p2) = requestAnimationFrame p1
      in p2\<lparr>animationFrameId := Some h\<rparr>)"

definition handleMouseDown :: "MarkdownView option \<Rightarrow> MouseEvent \<Rightarrow> plugin \<Rightarrow> plugin \<times> dispatch" where
  "handleMouseDown view evt p =
     (if button evt \<noteq> mouseButton (settings p) then (p, untouched)
      else
        let modKey = modifierKey (settings p);
            isModKeyPressed = (ctrlKey evt \<or> altKey evt \<or> shiftKey evt)
        in
          if (modKey = ModCtrl \<and> \<not> ctrlKey evt) \<or>
             (modKey = ModShift \<and> \<not> shiftKey evt) \<or>
             (modKey = ModAlt \<and> \<not> altKey evt) \<or>
             (modKey = ModNone \<and> isModKeyPressed)
          then (p, untouched)
          else
            let p1 = stopInertiaScroll p in
              case closest evt ''.workspace-leaf-content'' of
                None \<Rightarrow> (p1, untouched)
              | Some leaf \<Rightarrow>
                  (case getScrollableElement view of
                     None \<Rightarrow> (p1, untouched)
                   | Some scrollableEl \<Rightarrow>
                       (p1\<lparr>isDragging := True, startY := clientY evt, didDrag := False,
                           lastVelocityY := 0\<rparr>,
                        preventDefault untouched)))"

definition handleMouseMove :: "MarkdownView option \<Rightarrow> MouseEvent \<Rightarrow> plugin \<Rightarrow> plugin" where
  "handleMouseMove view evt p =
     (if \<not> isDragging p then p
      else
        case getScrollableElement view of
          None \<Rightarrow> p
        | Some scrollableEl \<Rightarrow>
            let p1 = (if \<not> didDrag p \<and> \<bar>clientY evt - startY p\<bar> > DRAG_THRESHOLD
                      then p\<lparr>didDrag := True, bodyDragging := True\<rparr>
                      else p)
            in
              if didDrag p1 then
                let deltaY = clientY evt - startY p1;
                    scrollAmount = Num (- deltaY);
                    p2 = scrollBy scrollableEl scrollAmount p1
                in p2\<lparr>lastVelocityY := scrollAmount, startY := clientY evt\<rparr>
              else p1)"

definition handleMouseUp :: "MouseEvent \<Rightarrow> plugin \<Rightarrow> plugin" where
  "handleMouseUp evt p =
     (if button evt \<noteq> mouseButton (settings p) \<or> \<not> isDragging p then p
      else
        let p1 = p\<lparr>isDragging := False\<rparr> in
          if didDrag p1 then startInertiaScroll (p1\<lparr>bodyDragging := False\<rparr>)
          else p1)"

definition handleContextMenu :: "MouseEvent \<Rightarrow> plugin \<Rightarrow> plugin \<times> dispatch" where
  "handleContextMenu evt p =
     (if didDrag p then
        (p\<lparr>didDrag := False\<rparr>,
         if mouseButton (settings p) = 2
         then stopImmediatePropagation (preventDefault untouched)
         else untouched)
      else (p, untouched))"

definition onunload :: "plugin \<Rightarrow> plugin" where
  "onunload p = stopInertiaScroll (p\<lparr>bodyDragging := False\<rparr>)"

subsection \<open>The event loop\<close>

text \<open>
  A display frame runs the callbacks that were registered when it began, each removed
  from the scheduler before it is called; every callback of the plugin is
  \<open>inertiaStep\<close>.
\<close>

fun runCallbacks :: "MarkdownView option \<Rightarrow> nat list \<Rightarrow> plugin \<Rightarrow> plugin" where
  "runCallbacks view [] p = p"
| "runCallbacks view (h # hs) p =
     (if h \<in> set (frameCallbacks p)
      then runCallbacks view hs (inertiaStep view (cancelAnimationFrame h p))
      else runCallbacks view hs p)"

definition animationFrame :: "MarkdownView option \<Rightarrow> plugin \<Rightarrow> plugin" where
  "animationFrame view p = runCallbacks view (frameCallbacks p) p"

text \<open>
  What the host delivers, one at a time and in order: a mouse event, a display frame,
  a change made in the settings panel, or the unloading of the plugin. Each comes with
  the active view of that moment (\<open>None\<close> when no document is open).
\<close>

datatype event =
    MouseDown MouseEvent
  | MouseMove MouseEvent
  | MouseUp MouseEvent
  | ContextMenu MouseEvent
  | Frame
  | SettingsChanged DragToScrollSettings
  | Unload

fun step :: "plugin \<Rightarrow> MarkdownView option \<times> event \<Rightarrow> plugin" where
  "step p (view, MouseDown evt) = fst (handleMouseDown view evt p)"
| "step p (view, MouseMove evt) = handleMouseMove view evt p"
| "step p (view, MouseUp evt) = handleMouseUp evt p"
| "step p (view, ContextMenu evt) = fst (handleContextMenu evt p)"
| "step p (view, Frame) = animationFrame view p"
| "step p (view, SettingsChanged cfg) = p\<lparr>settings := cfg\<rparr>"
| "step p (view, Unload) = onunload p"

definition run :: "plugin \<Rightarrow> (MarkdownView option \<times> event) list \<Rightarrow> plugin" where
  "run p evs = foldl step p evs"

subsection \<open>Runs of moves and of frames\<close>

text \<open>The pointer-move events of one gesture, in order, each with its active view.\<close>

definition moves :: "plugin \<Rightarrow> (MarkdownView option \<times> MouseEvent) list \<Rightarrow> plugin" where
  "moves p ms = foldl (\<lambda>q (view, evt). handleMouseMove view evt q) p ms"


text \<open>Successive display frames, each with its active view.\<close>

definition frames :: "plugin \<Rightarrow> MarkdownView option list \<Rightarrow> plugin" where
  "frames p views = foldl (\<lambda>q view. animationFrame view q) p views"

subsection \<open>Notions of the specification\<close>

text \<open>
  The modifier condition in the specification's words, over the four modifier flags of
  a mouse event: with \<open>none\<close> configured no modifier key may be held; otherwise the
  configured key must be held.
\<close>

definition modifier_condition :: "modifier \<Rightarrow> MouseEvent \<Rightarrow> bool" where
  "modifier_condition m evt =
     (case m of
        ModNone \<Rightarrow> \<not> ctrlKey evt \<and> \<not> shiftKey evt \<and> \<not> altKey evt \<and> \<not> metaKey evt
      | ModCtrl \<Rightarrow> ctrlKey evt
      | ModShift \<Rightarrow> shiftKey evt
      | ModAlt \<Rightarrow> altKey evt)"

text \<open>
  The condition over the three keys that the settings offer: with \<open>none\<close> configured
  none of ctrl, shift and alt may be held; otherwise the configured key must be held.
\<close>

definition modifier_satisfied :: "modifier \<Rightarrow> MouseEvent \<Rightarrow> bool" where
  "modifier_satisfied m evt =
     (case m of
        ModNone \<Rightarrow> \<not> ctrlKey evt \<and> \<not> shiftKey evt \<and> \<not> altKey evt
      | ModCtrl \<Rightarrow> ctrlKey evt
      | ModShift \<Rightarrow> shiftKey evt
      | ModAlt \<Rightarrow> altKey evt)"

text \<open>
  The scheduler invariant: handles are positive, and a callback that is still to run
  is the only one and is the one the plugin holds in \<open>animationFrameId\<close>.
\<close>

definition sched_inv :: "plugin \<Rightarrow> bool" where
  "sched_inv p =
     (0 < nextFrameHandle p \<and> animationFrameId p \<noteq> Some 0 \<and>
      (frameCallbacks p = [] \<or> map Some (frameCallbacks p) = [animationFrameId p]))"

subsection \<open>A worked scenario\<close>

text \<open>
  The default settings; a document open in the authoring mode whose scroller is
  element 1; a press of the right button at height \<open>y\<close> inside the content region
  (element 2) and one outside of it.
\<close>

definition example_settings :: DragToScrollSettings where
  "example_settings = \<lparr>mouseButton = 2, modifierKey = ModNone, friction = double_of 0.92\<rparr>"

definition example_view :: "MarkdownView option" where
  "example_view =
     Some \<lparr>getMode = ''source'',
           querySelector = (\<lambda>sel. if sel = ''.cm-scroller'' then Some 1 else None)\<rparr>"

definition inside :: "real \<Rightarrow> MouseEvent" where
  "inside y =
     \<lparr>button = 2, clientY = y, ctrlKey = False, altKey = False, shiftKey = False,
      metaKey = False, closest = (\<lambda>sel. if sel = ''.workspace-leaf-content'' then Some 2 else None)\<rparr>"

definition outside :: "real \<Rightarrow> MouseEvent" where
  "outside y =
     \<lparr>button = 2, clientY = y, ctrlKey = False, altKey = False, shiftKey = False,
      metaKey = False, closest = (\<lambda>sel. None)\<rparr>"

text \<open>Press at 100, move to 90, release: the content glides with velocity 10.\<close>

definition gliding :: plugin where
  "gliding =
     run (initial example_settings)
       [(example_view, MouseDown (inside 100)),
        (example_view, MouseMove (inside 90)),
        (example_view, MouseUp (inside 90))]"

text \<open>
  Press at 100, move to 90 and on to 89, release: the content glides with velocity 1,
  the smallest that still scrolls.
\<close>

definition slowing :: plugin where
  "slowing =
     run (initial example_settings)
       [(example_view, MouseDown (inside 100)),
        (example_view, MouseMove (inside 90)),
        (example_view, MouseMove (inside 89)),
        (example_view, MouseUp (inside 89))]"


text \<open>Press at 100 and move to 90: the drag is confirmed and not yet released.\<close>

definition dragging :: plugin where
  "dragging =
     run (initial example_settings)
       [(example_view, MouseDown (inside 100)),
        (example_view, MouseMove (inside 90))]"

text \<open>Press at 100 inside the content region: the gesture is armed.\<close>

definition armed :: plugin where
  "armed = fst (handleMouseDown example_view (inside 100) (initial example_settings))"


section \<open>Properties\<close>

subsection \<open>Auxiliary facts\<close>

text \<open>Numbers.\<close>

declare zero_number_def [simp]


text \<open>
  \<open>exponent\<close> brackets a positive real between two successive powers of 2, and
  rounding never yields NaN.
\<close>

lemma exponent_bounds:
  assumes "0 < a"
  shows "2 powi exponent a \<le> a \<and> a < 2 powi (exponent a + 1)"
proof (cases "1 \<le> a")
  case True
  let ?n = "\<lfloor>a\<rfloor>"
  let ?e = "bitlen ?n - 1"
  from True have n: "0 < ?n" by simp
  from bitlen_bounds [OF n]
  have lo: "2 ^ nat ?e \<le> ?n" and hi: "?n < 2 ^ nat (bitlen ?n)"
    by simp_all
  from n have e: "0 \<le> ?e"
    by (simp add: bitlen_alt_def)
  then have s: "nat (bitlen ?n) = Suc (nat ?e)" by simp
  have "(2::real) powi ?e = 2 ^ nat ?e"
    using e by (simp add: power_int_def)
  also have "\<dots> = of_int (2 ^ nat ?e)" by simp
  also have "\<dots> \<le> of_int ?n"
    using lo by (simp only: of_int_le_iff)
  also have "\<dots> \<le> a" by simp
  finally have l: "2 powi ?e \<le> a" .
  from hi have "?n + 1 \<le> 2 ^ nat (bitlen ?n)" by simp
  then have "of_int (?n + 1) \<le> (of_int (2 ^ nat (bitlen ?n)) :: real)"
    by (simp only: of_int_le_iff)
  then have "of_int ?n + 1 \<le> (2 ^ nat (bitlen ?n) :: real)" by simp
  moreover have "a < of_int ?n + 1" by linarith
  ultimately have "a < 2 ^ nat (bitlen ?n)" by linarith
  also have "(2::real) ^ nat (bitlen ?n) = 2 powi (?e + 1)"
    using e by (simp add: power_int_def s nat_add_distrib)
  finally have u: "a < 2 powi (?e + 1)" .
  from True l u show ?thesis
    by (simp add: exponent_def)
next
  case False
  let ?y = "1 / a"
  let ?m = "\<lceil>?y\<rceil>"
  let ?j = "bitlen (?m - 1)"
  from False assms have y: "1 < ?y" by simp
  then have m: "0 < ?m - 1" by (simp add: less_ceiling_iff)
  from bitlen_bounds [OF m]
  have lo: "2 ^ nat (?j - 1) \<le> ?m - 1" and hi: "?m - 1 < 2 ^ nat ?j"
    by simp_all
  from m have j: "1 \<le> ?j"
    by (simp add: bitlen_alt_def)
  have "?y \<le> of_int ?m" by simp
  also have "\<dots> \<le> of_int (2 ^ nat ?j)"
    using hi by (simp only: of_int_le_iff)
  finally have "?y \<le> 2 ^ nat ?j" by simp
  then have "1 \<le> a * 2 ^ nat ?j"
    using assms by (simp add: field_simps)
  then have "inverse (2 ^ nat ?j) \<le> a"
    by (simp add: field_simps)
  moreover have "(2::real) powi (- ?j) = inverse (2 ^ nat ?j)"
    using j by (simp add: power_int_def power_one_over inverse_eq_divide)
  ultimately have l: "2 powi (- ?j) \<le> a" by simp
  have "(of_int (2 ^ nat (?j - 1)) :: real) \<le> of_int (?m - 1)"
    using lo by (simp only: of_int_le_iff)
  also have "\<dots> < ?y"
    by linarith
  finally have "2 ^ nat (?j - 1) < ?y" by simp
  then have "a * 2 ^ nat (?j - 1) < 1"
    using assms by (simp add: field_simps)
  then have "a < inverse (2 ^ nat (?j - 1))"
    by (simp add: field_simps)
  moreover have "(2::real) powi (- ?j + 1) = inverse (2 ^ nat (?j - 1))"
  proof (cases "?j = 1")
    case True
    then show ?thesis by simp
  next
    case False
    with j have "- ?j + 1 < 0" and "nat (- (- ?j + 1)) = nat (?j - 1)" by simp_all
    then show ?thesis by (simp add: power_int_def power_one_over inverse_eq_divide)
  qed
  ultimately have u: "a < 2 powi (- ?j + 1)" by simp
  from False l u show ?thesis
    by (simp add: exponent_def)
qed

lemma double_of_not_NaN: "double_of x \<noteq> NaN"
  by (simp add: double_of_def Let_def)


text \<open>The doubles of the worked scenario: 0.92, and its products with 10 and with 1.\<close>

lemma example_friction:
  "friction example_settings = Num (8286623314361713 / 9007199254740992)"
  by (simp add: example_settings_def double_of_def exponent_def compute_bitlen
      round_half_even_def Let_def power_int_minus)

lemma double_of_10_friction:
  "double_of (41433116571808565 / 4503599627370496)
     = Num (5179139571476071 / 562949953421312)"
  by (simp add: double_of_def exponent_def compute_bitlen round_half_even_def Let_def
      power_int_minus)

lemma double_of_1_friction:
  "double_of (8286623314361713 / 9007199254740992) = Num (8286623314361713 / 9007199254740992)"
  by (simp add: double_of_def exponent_def compute_bitlen round_half_even_def Let_def
      power_int_minus)

text \<open>\<open>Object.assign\<close>.\<close>

declare index_key.simps [simp del]

lemma index_key_digits: "set (index_key n) \<subseteq> set ''0123456789''"
proof (induction n rule: index_key.induct)
  case (1 n)
  have d: "''0123456789'' ! k \<in> set ''0123456789''" if "k < 10" for k
    using that by (intro nth_mem) simp
  show ?case
  proof (cases "n < 10")
    case True
    then show ?thesis
      using d [of n] by (subst index_key.simps) simp
  next
    case False
    have "n mod 10 < 10" by simp
    then have "''0123456789'' ! (n mod 10) \<in> set ''0123456789''"
      by (rule d)
    with False 1 show ?thesis
      by (subst index_key.simps) simp
  qed
qed

lemma index_key_not_proto: "index_key n \<noteq> ''__proto__''" "''__proto__'' \<noteq> index_key n"
proof -
  show "index_key n \<noteq> ''__proto__''"
  proof
    assume "index_key n = ''__proto__''"
    then have "CHR ''_'' \<in> set (index_key n)" by simp
    with index_key_digits [of n] show False by auto
  qed
  then show "''__proto__'' \<noteq> index_key n" by (rule not_sym)
qed

lemma members_keys: "fst ` set (members ps) = fst ` set ps"
  by (induction ps rule: members.induct) auto

lemma members_distinct: "distinct (map fst (members ps))"
  by (induction ps rule: members.induct) (auto simp: members_keys)

lemma members_lookup: "map_of (members ps) = map_of (rev ps)"
proof (induction ps rule: members.induct)
  case 1
  show ?case by simp
next
  case (2 k v ps)
  show ?case
  proof (cases "k \<in> fst ` set ps")
    case True
    then have "map_of (rev ps) k \<noteq> None"
      by (simp add: map_of_eq_None_iff)
    then have "map_of (rev ps @ [(k, v)]) = map_of (rev ps)"
      by (auto simp: map_of_append map_add_def fun_eq_iff split: option.splits)
    with True 2 show ?thesis by simp
  next
    case False
    then have "map_of (rev ps) k = None"
      by (simp add: map_of_eq_None_iff)
    then have "map_of (rev ps @ [(k, v)]) = (map_of (rev ps))(k \<mapsto> v)"
      by (auto simp: map_of_append map_add_def fun_eq_iff split: option.splits)
    with False 2 show ?thesis by simp
  qed
qed

lemma put_other:
  "k \<noteq> ''__proto__'' \<Longrightarrow> put k v obj = obj\<lparr>props := (props obj)(k \<mapsto> v)\<rparr>"
  by (simp add: put_def)

lemma fold_put_other:
  assumes "''__proto__'' \<notin> fst ` set xs"
  shows "fold (\<lambda>(k, v) obj. put k v obj) xs obj
           = obj\<lparr>props := props obj ++ map_of (rev xs)\<rparr>"
  using assms
proof (induction xs arbitrary: obj)
  case Nil
  show ?case by simp
next
  case (Cons a xs)
  obtain k v where a: "a = (k, v)" by (cases a)
  from Cons.prems have k: "k \<noteq> ''__proto__''" and xs: "''__proto__'' \<notin> fst ` set xs"
    by (auto simp: a)
  let ?obj = "obj\<lparr>props := (props obj)(k \<mapsto> v)\<rparr>"
  have e: "props ?obj ++ map_of (rev xs) = props obj ++ map_of (rev (a # xs))"
    unfolding a by (simp add: map_of_append fun_eq_iff map_add_def split: option.splits)
  have "fold (\<lambda>(k, v) obj. put k v obj) (a # xs) obj
      = fold (\<lambda>(k, v) obj. put k v obj) xs ?obj"
    unfolding a by (simp add: put_other [OF k])
  also have "\<dots> = ?obj\<lparr>props := props ?obj ++ map_of (rev xs)\<rparr>"
    using xs by (rule Cons.IH)
  also have "\<dots> = obj\<lparr>props := props obj ++ map_of (rev (a # xs))\<rparr>"
    unfolding e by simp
  finally show ?case .
qed

lemma put_proto:
  assumes "props obj ''__proto__'' = None" and "proto obj = None"
  shows "props (put ''__proto__'' v obj) = props obj"
  using assms by (simp add: put_def)

lemma fold_put_props:
  assumes "distinct (map fst xs)" and "props obj ''__proto__'' = None" and "proto obj = None"
  shows "props (fold (\<lambda>(k, v) obj. put k v obj) xs obj) j
           = (if j = ''__proto__'' then None else (props obj ++ map_of (rev xs)) j)"
  using assms
proof (induction xs arbitrary: obj)
  case Nil
  then show ?case by simp
next
  case (Cons a xs)
  obtain k v where a: "a = (k, v)" by (cases a)
  from Cons.prems(1) have d: "distinct (map fst xs)" and kx: "k \<notin> fst ` set xs"
    by (simp_all add: a)
  show ?case
  proof (cases "k = ''__proto__''")
    case True
    with kx have n: "''__proto__'' \<notin> fst ` set xs" by simp
    have p: "props (put k v obj) = props obj"
      unfolding True using Cons.prems(2,3) by (rule put_proto)
    have m: "map_of (rev xs) ''__proto__'' = None"
      using n by (simp add: map_of_eq_None_iff)
    have "props (fold (\<lambda>(k, v) obj. put k v obj) (a # xs) obj) j
        = (props obj ++ map_of (rev xs)) j"
      by (simp add: a fold_put_other [OF n] p)
    also have "\<dots> = (if j = ''__proto__'' then None else (props obj ++ map_of (rev (a # xs))) j)"
      using Cons.prems(2) m
      by (auto simp: a True map_of_append map_add_def split: option.splits)
    finally show ?thesis .
  next
    case False
    let ?obj = "obj\<lparr>props := (props obj)(k \<mapsto> v)\<rparr>"
    have e: "(props ?obj ++ map_of (rev xs)) j = (props obj ++ map_of (rev (a # xs))) j"
      by (simp add: a map_of_append map_add_def split: option.splits)
    have "props (fold (\<lambda>(k, v) obj. put k v obj) (a # xs) obj) j
        = props (fold (\<lambda>(k, v) obj. put k v obj) xs ?obj) j"
      by (simp add: a put_other [OF False])
    also have "\<dots> = (if j = ''__proto__'' then None else (props ?obj ++ map_of (rev xs)) j)"
      using d Cons.prems(2,3) False by (intro Cons.IH) simp_all
    finally show ?thesis
      by (simp only: e)
  qed
qed

lemma ownEnumerable_proto_free:
  "(\<exists>ps. data = JObj ps) \<or> ''__proto__'' \<notin> fst ` set (ownEnumerable data)"
proof (cases data)
  case (JStr s)
  have "''__proto__'' \<notin> set (map index_key [0..<length s])"
    by (auto simp: index_key_not_proto)
  then show ?thesis
    unfolding JStr by (auto dest!: set_zip_leftD)
next
  case (JArr xs)
  have "''__proto__'' \<notin> set (map index_key [0..<length xs])"
    by (auto simp: index_key_not_proto)
  then show ?thesis
    unfolding JArr by (auto dest!: set_zip_leftD)
qed simp_all

lemma assignFrom_props:
  assumes "props obj ''__proto__'' = None" and "proto obj = None"
  shows "props (assignFrom data obj) j
           = (if j = ''__proto__'' then None
              else (props obj ++ map_of (rev (ownEnumerable data))) j)"
proof (cases "\<exists>ps. data = JObj ps")
  case True
  then obtain ps where ps: "data = JObj ps" by blast
  show ?thesis
    unfolding assignFrom_def ps ownEnumerable.simps
    using members_distinct assms by (rule fold_put_props)
next
  case False
  with ownEnumerable_proto_free [of data]
  have n: "''__proto__'' \<notin> fst ` set (ownEnumerable data)" by blast
  then have "map_of (rev (ownEnumerable data)) ''__proto__'' = None"
    by (simp add: map_of_eq_None_iff)
  with assms(1) show ?thesis
    by (simp add: assignFrom_def fold_put_other [OF n] map_add_def)
qed

lemma assignFrom_defaults:
  "assignFrom DEFAULT_SETTINGS \<lparr>props = Map.empty, proto = None\<rparr>
     = \<lparr>props = map_of (ownEnumerable DEFAULT_SETTINGS), proto = None\<rparr>"
  by (simp add: assignFrom_def DEFAULT_SETTINGS_def put_def fun_eq_iff)

text \<open>The scheduler.\<close>

lemma stopInertiaScroll_fields [simp]:
  "settings (stopInertiaScroll p) = settings p"
  "isDragging (stopInertiaScroll p) = isDragging p"
  "startY (stopInertiaScroll p) = startY p"
  "didDrag (stopInertiaScroll p) = didDrag p"
  "lastVelocityY (stopInertiaScroll p) = 0"
  "nextFrameHandle (stopInertiaScroll p) = nextFrameHandle p"
  "scrollLog (stopInertiaScroll p) = scrollLog p"
  "bodyDragging (stopInertiaScroll p) = bodyDragging p"
  by (simp_all add: stopInertiaScroll_def cancelAnimationFrame_def)

lemma sched_inv_initial: "sched_inv (initial cfg)"
  by (simp add: sched_inv_def initial_def)

lemma sched_inv_length: "sched_inv p \<Longrightarrow> length (frameCallbacks p) \<le> 1"
  by (auto simp: sched_inv_def map_eq_Cons_conv)

lemma sched_inv_pending:
  assumes "sched_inv p" and "frameCallbacks p \<noteq> []"
  obtains h where "frameCallbacks p = [h]" and "animationFrameId p = Some h" and "h \<noteq> 0"
proof -
  from assms have "map Some (frameCallbacks p) = [animationFrameId p]"
    and nz: "animationFrameId p \<noteq> Some 0"
    by (simp_all add: sched_inv_def)
  then obtain h where "frameCallbacks p = [h]" and "Some h = animationFrameId p"
    by (auto simp: map_eq_Cons_conv)
  then have "frameCallbacks p = [h]" and "animationFrameId p = Some h"
    by simp_all
  with nz that show thesis by auto
qed

lemma sched_inv_idle:
  assumes "sched_inv p" and "frameCallbacks p = []"
  shows "animationFrameId p \<noteq> Some 0" and "0 < nextFrameHandle p"
  using assms by (simp_all add: sched_inv_def)

lemma stopInertiaScroll_stops:
  assumes "sched_inv p"
  shows "frameCallbacks (stopInertiaScroll p) = []"
    and "animationFrameId (stopInertiaScroll p) = None"
    and "sched_inv (stopInertiaScroll p)"
proof -
  show a: "frameCallbacks (stopInertiaScroll p) = []"
  proof (cases "frameCallbacks p = []")
    case True
    then show ?thesis by (simp add: stopInertiaScroll_def cancelAnimationFrame_def)
  next
    case False
    with assms obtain h where "frameCallbacks p = [h]" "animationFrameId p = Some h" "h \<noteq> 0"
      by (rule sched_inv_pending)
    then show ?thesis by (simp add: stopInertiaScroll_def cancelAnimationFrame_def)
  qed
  show b: "animationFrameId (stopInertiaScroll p) = None"
    using assms
    by (cases "animationFrameId p")
       (auto simp: sched_inv_def stopInertiaScroll_def cancelAnimationFrame_def)
  show "sched_inv (stopInertiaScroll p)"
    using assms a b by (simp add: sched_inv_def)
qed

lemma startInertiaScroll_starts:
  assumes "sched_inv p"
  shows "frameCallbacks (startInertiaScroll p) = [nextFrameHandle p]"
    and "animationFrameId (startInertiaScroll p) = Some (nextFrameHandle p)"
    and "sched_inv (startInertiaScroll p)"
    and "lastVelocityY (startInertiaScroll p) = lastVelocityY p"
    and "scrollLog (startInertiaScroll p) = scrollLog p"
    and "settings (startInertiaScroll p) = settings p"
proof -
  show a: "frameCallbacks (startInertiaScroll p) = [nextFrameHandle p]"
  proof (cases "frameCallbacks p = []")
    case True
    then show ?thesis
      by (simp add: startInertiaScroll_def cancelAnimationFrame_def requestAnimationFrame_def)
  next
    case False
    with assms obtain h where "frameCallbacks p = [h]" "animationFrameId p = Some h" "h \<noteq> 0"
      by (rule sched_inv_pending)
    then show ?thesis
      by (simp add: startInertiaScroll_def cancelAnimationFrame_def requestAnimationFrame_def)
  qed
  show b: "animationFrameId (startInertiaScroll p) = Some (nextFrameHandle p)"
    by (simp add: startInertiaScroll_def cancelAnimationFrame_def requestAnimationFrame_def)
  have c: "nextFrameHandle (startInertiaScroll p) = nextFrameHandle p + 1"
    by (simp add: startInertiaScroll_def cancelAnimationFrame_def requestAnimationFrame_def)
  show "sched_inv (startInertiaScroll p)"
    using assms a b c by (simp add: sched_inv_def)
  show "lastVelocityY (startInertiaScroll p) = lastVelocityY p"
    and "scrollLog (startInertiaScroll p) = scrollLog p"
    and "settings (startInertiaScroll p) = settings p"
    by (simp_all add: startInertiaScroll_def cancelAnimationFrame_def requestAnimationFrame_def)
qed

text \<open>One tick, called with no callback left in the scheduler.\<close>

lemma inertiaStep_continue:
  assumes "sched_inv p" and "frameCallbacks p = []"
    and "getScrollableElement view = Some el"
    and "\<not> less_number (Math_abs (lastVelocityY p)) (Num 1)"
  shows "inertiaStep view p =
           p\<lparr>lastVelocityY := times64 (lastVelocityY p) (friction (settings p)),
             animationFrameId := Some (nextFrameHandle p),
             frameCallbacks := [nextFrameHandle p],
             nextFrameHandle := nextFrameHandle p + 1,
             scrollLog := scrollLog p @ [(el, lastVelocityY p)]\<rparr>"
  using assms
  by (simp add: inertiaStep_def scrollBy_def requestAnimationFrame_def)

lemma inertiaStep_stop:
  assumes "getScrollableElement view = None
      \<or> less_number (Math_abs (lastVelocityY p)) (Num 1)"
  shows "inertiaStep view p = stopInertiaScroll p"
  using assms by (auto simp: inertiaStep_def split: option.splits)

lemma sched_inv_inertiaStep:
  assumes "sched_inv p" and "frameCallbacks p = []"
  shows "sched_inv (inertiaStep view p)"
proof (cases "getScrollableElement view = None
    \<or> less_number (Math_abs (lastVelocityY p)) (Num 1)")
  case True
  then show ?thesis
    using assms by (simp add: inertiaStep_stop stopInertiaScroll_stops)
next
  case False
  then obtain el where "getScrollableElement view = Some el"
    and "\<not> less_number (Math_abs (lastVelocityY p)) (Num 1)"
    by auto
  then show ?thesis
    using assms by (simp add: inertiaStep_continue) (simp add: sched_inv_def)
qed

lemma animationFrame_idle: "frameCallbacks p = [] \<Longrightarrow> animationFrame view p = p"
  by (simp add: animationFrame_def)

lemma animationFrame_tick:
  assumes "sched_inv p" and "frameCallbacks p \<noteq> []"
  shows "animationFrame view p = inertiaStep view (p\<lparr>frameCallbacks := []\<rparr>)"
proof -
  from assms obtain h where "frameCallbacks p = [h]"
    by (rule sched_inv_pending)
  then show ?thesis
    by (simp add: animationFrame_def cancelAnimationFrame_def)
qed

lemma sched_inv_clear: "sched_inv p \<Longrightarrow> sched_inv (p\<lparr>frameCallbacks := []\<rparr>)"
  by (simp add: sched_inv_def)

lemma sched_inv_animationFrame:
  assumes "sched_inv p"
  shows "sched_inv (animationFrame view p)"
proof (cases "frameCallbacks p = []")
  case True
  then show ?thesis using assms by (simp add: animationFrame_idle)
next
  case False
  then show ?thesis
    using assms by (simp add: animationFrame_tick sched_inv_inertiaStep sched_inv_clear)
qed

lemma animationFrame_continue:
  assumes "sched_inv p" and "frameCallbacks p \<noteq> []"
    and "getScrollableElement view = Some el"
    and "\<not> less_number (Math_abs (lastVelocityY p)) (Num 1)"
  shows "animationFrame view p =
           p\<lparr>lastVelocityY := times64 (lastVelocityY p) (friction (settings p)),
             animationFrameId := Some (nextFrameHandle p),
             frameCallbacks := [nextFrameHandle p],
             nextFrameHandle := nextFrameHandle p + 1,
             scrollLog := scrollLog p @ [(el, lastVelocityY p)]\<rparr>"
  using assms
  by (simp add: animationFrame_tick inertiaStep_continue sched_inv_clear)

lemma animationFrame_stop:
  assumes "sched_inv p" and "frameCallbacks p \<noteq> []"
    and "getScrollableElement view = None
      \<or> less_number (Math_abs (lastVelocityY p)) (Num 1)"
  shows "animationFrame view p =
           p\<lparr>lastVelocityY := 0, animationFrameId := None, frameCallbacks := []\<rparr>"
proof -
  from assms(1,2) obtain h where h: "frameCallbacks p = [h]" "animationFrameId p = Some h" "h \<noteq> 0"
    by (rule sched_inv_pending)
  have "animationFrame view p = stopInertiaScroll (p\<lparr>frameCallbacks := []\<rparr>)"
    using assms by (simp add: animationFrame_tick inertiaStep_stop)
  then show ?thesis
    using h by (simp add: stopInertiaScroll_def cancelAnimationFrame_def)
qed

lemma sched_inv_handleMouseDown:
  "sched_inv p \<Longrightarrow> sched_inv (fst (handleMouseDown view evt p))"
proof -
  assume "sched_inv p"
  then have a: "sched_inv (stopInertiaScroll p)"
    by (rule stopInertiaScroll_stops(3))
  then have "sched_inv (stopInertiaScroll p\<lparr>isDragging := True, startY := clientY evt,
      didDrag := False, lastVelocityY := 0\<rparr>)"
    by (simp add: sched_inv_def)
  with a \<open>sched_inv p\<close> show ?thesis
    by (simp add: handleMouseDown_def Let_def split: option.splits)
qed

lemma sched_inv_handleMouseMove:
  "sched_inv p \<Longrightarrow> sched_inv (handleMouseMove view evt p)"
  by (auto simp: handleMouseMove_def Let_def scrollBy_def sched_inv_def split: option.splits)

lemma sched_inv_handleMouseUp:
  "sched_inv p \<Longrightarrow> sched_inv (handleMouseUp evt p)"
proof -
  assume a: "sched_inv p"
  have b: "sched_inv (p\<lparr>isDragging := False\<rparr>)"
    and c: "sched_inv (p\<lparr>isDragging := False, bodyDragging := False\<rparr>)"
    using a by (simp_all add: sched_inv_def)
  show ?thesis
    using a b c by (simp add: handleMouseUp_def Let_def startInertiaScroll_starts(3))
qed

lemma sched_inv_handleContextMenu:
  "sched_inv p \<Longrightarrow> sched_inv (fst (handleContextMenu evt p))"
  by (simp add: handleContextMenu_def sched_inv_def)

lemma sched_inv_onunload: "sched_inv p \<Longrightarrow> sched_inv (onunload p)"
proof -
  assume "sched_inv p"
  then have "sched_inv (p\<lparr>bodyDragging := False\<rparr>)"
    by (simp add: sched_inv_def)
  then show ?thesis
    unfolding onunload_def by (rule stopInertiaScroll_stops(3))
qed

lemma sched_inv_settings: "sched_inv p \<Longrightarrow> sched_inv (p\<lparr>settings := cfg\<rparr>)"
  by (simp add: sched_inv_def)

lemma sched_inv_step: "sched_inv p \<Longrightarrow> sched_inv (step p ev)"
proof -
  assume a: "sched_inv p"
  obtain view e where ev: "ev = (view, e)" by (cases ev)
  show ?thesis
    unfolding ev using a
    by (cases e)
       (simp_all add: sched_inv_handleMouseDown sched_inv_handleMouseMove sched_inv_handleMouseUp
          sched_inv_handleContextMenu sched_inv_animationFrame sched_inv_settings
          sched_inv_onunload)
qed

lemma sched_inv_run: "sched_inv p \<Longrightarrow> sched_inv (run p evs)"
  unfolding run_def by (induction evs arbitrary: p) (simp_all add: sched_inv_step)

lemma sched_inv_reachable: "sched_inv (run (initial cfg) evs)"
  by (simp add: sched_inv_run sched_inv_initial)

lemma handleMouseMove_unresolvable:
  "getScrollableElement view = None \<Longrightarrow> handleMouseMove view evt p = p"
  by (simp add: handleMouseMove_def)

lemma moves_unresolvable:
  "\<forall>(view, evt) \<in> set ms. getScrollableElement view = None \<Longrightarrow> moves p ms = p"
  by (induction ms arbitrary: p) (auto simp: moves_def handleMouseMove_unresolvable)

lemma example_view_resolves: "getScrollableElement example_view = Some 1"
  by (simp add: example_view_def getScrollableElement_def)

lemma gliding_eq:
  "gliding = \<lparr>settings = example_settings, isDragging = False, startY = 90, didDrag = True,
      lastVelocityY = Num 10, animationFrameId = Some 1, frameCallbacks = [1], nextFrameHandle = 2,
      scrollLog = [(1, Num 10)], bodyDragging = False\<rparr>"
  by (simp add: gliding_def run_def initial_def example_settings_def inside_def
      handleMouseDown_def handleMouseMove_def handleMouseUp_def example_view_resolves
      stopInertiaScroll_def startInertiaScroll_def requestAnimationFrame_def scrollBy_def
      preventDefault_def untouched_def DRAG_THRESHOLD_def Let_def)


lemma slowing_eq:
  "slowing = \<lparr>settings = example_settings, isDragging = False, startY = 89, didDrag = True,
      lastVelocityY = Num 1, animationFrameId = Some 1, frameCallbacks = [1], nextFrameHandle = 2,
      scrollLog = [(1, Num 10), (1, Num 1)], bodyDragging = False\<rparr>"
  by (simp add: slowing_def run_def initial_def example_settings_def inside_def
      handleMouseDown_def handleMouseMove_def handleMouseUp_def example_view_resolves
      stopInertiaScroll_def startInertiaScroll_def requestAnimationFrame_def scrollBy_def
      preventDefault_def untouched_def DRAG_THRESHOLD_def Let_def)

lemma dragging_eq:
  "dragging = \<lparr>settings = example_settings, isDragging = True, startY = 90, didDrag = True,
      lastVelocityY = Num 10, animationFrameId = None, frameCallbacks = [], nextFrameHandle = 1,
      scrollLog = [(1, Num 10)], bodyDragging = True\<rparr>"
  by (simp add: dragging_def run_def initial_def example_settings_def inside_def
      handleMouseDown_def handleMouseMove_def example_view_resolves
      stopInertiaScroll_def scrollBy_def
      preventDefault_def untouched_def DRAG_THRESHOLD_def Let_def)

lemma armed_eq:
  "armed = \<lparr>settings = example_settings, isDragging = True, startY = 100, didDrag = False,
      lastVelocityY = 0, animationFrameId = None, frameCallbacks = [], nextFrameHandle = 1,
      scrollLog = [], bodyDragging = False\<rparr>"
  by (simp add: armed_def initial_def example_settings_def inside_def
      handleMouseDown_def example_view_resolves stopInertiaScroll_def
      preventDefault_def untouched_def Let_def)


text \<open>Runs of frames.\<close>

lemma frames_Cons: "frames p (view # views) = frames (animationFrame view p) views"
  by (simp add: frames_def)

lemma inertia_run:
  assumes "sched_inv p" and "frameCallbacks p \<noteq> []"
    and "\<forall>view \<in> set views. getScrollableElement view \<noteq> None"
    and "\<forall>k < length views.
           \<not> less_number
               (Math_abs (((\<lambda>v. times64 v (friction (settings p))) ^^ k) (lastVelocityY p)))
               (Num 1)"
  shows "lastVelocityY (frames p views)
           = ((\<lambda>v. times64 v (friction (settings p))) ^^ length views) (lastVelocityY p)
       \<and> settings (frames p views) = settings p
       \<and> sched_inv (frames p views) \<and> frameCallbacks (frames p views) \<noteq> []"
  using assms
proof (induction views arbitrary: p)
  case Nil
  then show ?case by (simp add: frames_def)
next
  case (Cons view views)
  let ?f = "\<lambda>v. times64 v (friction (settings p))"
  let ?q = "animationFrame view p"
  from Cons.prems(3) obtain el where el: "getScrollableElement view = Some el"
    by auto
  from Cons.prems(4) have "\<not> less_number (Math_abs ((?f ^^ 0) (lastVelocityY p))) (Num 1)"
    by blast
  then have v: "\<not> less_number (Math_abs (lastVelocityY p)) (Num 1)" by simp
  have q: "?q = p\<lparr>lastVelocityY := times64 (lastVelocityY p) (friction (settings p)),
             animationFrameId := Some (nextFrameHandle p),
             frameCallbacks := [nextFrameHandle p],
             nextFrameHandle := nextFrameHandle p + 1,
             scrollLog := scrollLog p @ [(el, lastVelocityY p)]\<rparr>"
    using Cons.prems(1,2) el v by (rule animationFrame_continue)
  have q1: "sched_inv ?q"
    using Cons.prems(1) by (rule sched_inv_animationFrame)
  have q2: "frameCallbacks ?q \<noteq> []" and q3: "settings ?q = settings p"
    and q4: "lastVelocityY ?q = ?f (lastVelocityY p)"
    by (simp_all add: q)
  have q5: "\<forall>view \<in> set views. getScrollableElement view \<noteq> None"
    using Cons.prems(3) by simp
  have q6: "\<forall>k < length views.
      \<not> less_number
          (Math_abs (((\<lambda>v. times64 v (friction (settings ?q))) ^^ k) (lastVelocityY ?q)))
          (Num 1)"
  proof (intro allI impI)
    fix k assume "k < length views"
    then have "Suc k < length (view # views)" by simp
    with Cons.prems(4)
    have "\<not> less_number (Math_abs ((?f ^^ Suc k) (lastVelocityY p))) (Num 1)"
      by blast
    then show "\<not> less_number
          (Math_abs (((\<lambda>v. times64 v (friction (settings ?q))) ^^ k) (lastVelocityY ?q)))
          (Num 1)"
      by (simp only: q3 q4 funpow_Suc_right o_apply not_False_eq_True)
  qed
  have "(?f ^^ length (view # views)) (lastVelocityY p)
      = (?f ^^ length views) (?f (lastVelocityY p))"
    by (simp only: list.size funpow_Suc_right o_apply add_Suc_right add_0_right)
  with Cons.IH [OF q1 q2 q5 q6] show ?case
    unfolding frames_Cons q3 q4 by simp
qed

text \<open>Runs of moves.\<close>

lemma moves_Nil: "moves p [] = p"
  by (simp add: moves_def)

lemma moves_Cons: "moves p ((view, evt) # ms) = moves (handleMouseMove view evt p) ms"
  by (simp add: moves_def)








lemma handleMouseDown_armed:
  assumes "defaultPrevented (snd (handleMouseDown view evt p))"
  shows "fst (handleMouseDown view evt p) =
           (stopInertiaScroll p)\<lparr>isDragging := True, startY := clientY evt, didDrag := False,
              lastVelocityY := 0\<rparr>"
  using assms
  by (auto simp: handleMouseDown_def Let_def untouched_def split: if_splits option.splits)



lemma handleMouseMove_velocity:
  assumes "lastVelocityY p = 0 \<or>
             (n < length (scrollLog p) \<and> snd (last (scrollLog p)) = lastVelocityY p)"
    and "n \<le> length (scrollLog p)"
  shows "(lastVelocityY (handleMouseMove view evt p) = 0 \<or>
             (n < length (scrollLog (handleMouseMove view evt p))
              \<and> snd (last (scrollLog (handleMouseMove view evt p)))
                  = lastVelocityY (handleMouseMove view evt p)))
         \<and> n \<le> length (scrollLog (handleMouseMove view evt p))"
  using assms
  by (auto simp: handleMouseMove_def scrollBy_def Let_def split: option.splits)

lemma moves_velocity:
  assumes "lastVelocityY p = 0 \<or>
             (n < length (scrollLog p) \<and> snd (last (scrollLog p)) = lastVelocityY p)"
    and "n \<le> length (scrollLog p)"
  shows "lastVelocityY (moves p ms) = 0 \<or>
             (n < length (scrollLog (moves p ms))
              \<and> snd (last (scrollLog (moves p ms))) = lastVelocityY (moves p ms))"
  using assms
proof (induction ms arbitrary: p)
  case Nil
  then show ?case by (simp add: moves_Nil)
next
  case (Cons m ms)
  obtain view evt where m: "m = (view, evt)" by (cases m)
  from handleMouseMove_velocity [OF Cons.prems, of view evt]
  show ?case
    unfolding m moves_Cons by (intro Cons.IH) simp_all
qed

subsection \<open>The claims\<close>

text \<open>
  C1, as the code has it. Take a state that satisfies the scheduler invariant (every
  reachable state does) and has an inertia tick scheduled; call its velocity \<open>v0\<close> and
  its friction \<open>f\<close>. Over \<open>n\<close> successive frames, each with a resolvable scroll target
  and each beginning with a velocity that does not test below 1 in magnitude, the
  velocity becomes the result of \<open>n\<close> successive multiplications by \<open>f\<close>, each one a
  multiplication of doubles with its rounding, and a tick stays scheduled. If that
  velocity tests below 1 in magnitude, the next frame, with or without a scroll target,
  ends the run: the handle is cleared, the velocity zeroed, nothing scrolled and no
  callback scheduled, so that later frames do nothing.
\<close>

theorem inertia_decay:
  assumes "sched_inv p" and "frameCallbacks p \<noteq> []"
    and "\<forall>view \<in> set views. getScrollableElement view \<noteq> None"
    and "\<forall>k < length views.
           \<not> less_number
               (Math_abs (((\<lambda>v. times64 v (friction (settings p))) ^^ k) (lastVelocityY p)))
               (Num 1)"
  shows "lastVelocityY (frames p views)
           = ((\<lambda>v. times64 v (friction (settings p))) ^^ length views) (lastVelocityY p)
       \<and> frameCallbacks (frames p views) \<noteq> []
       \<and> (less_number (Math_abs (lastVelocityY (frames p views))) (Num 1) \<longrightarrow>
            animationFrameId (animationFrame view (frames p views)) = None
            \<and> lastVelocityY (animationFrame view (frames p views)) = 0
            \<and> frameCallbacks (animationFrame view (frames p views)) = []
            \<and> scrollLog (animationFrame view (frames p views)) = scrollLog (frames p views)
            \<and> animationFrame view' (animationFrame view (frames p views))
                = animationFrame view (frames p views))"
proof -
  let ?q = "frames p views"
  from inertia_run [OF assms]
  have a: "lastVelocityY ?q
      = ((\<lambda>v. times64 v (friction (settings p))) ^^ length views) (lastVelocityY p)"
    and b: "sched_inv ?q" and c: "frameCallbacks ?q \<noteq> []"
    by simp_all
  have d: "animationFrame view ?q
      = ?q\<lparr>lastVelocityY := 0, animationFrameId := None, frameCallbacks := []\<rparr>"
    if "less_number (Math_abs (lastVelocityY ?q)) (Num 1)"
    using b c that by (simp add: animationFrame_stop)
  show ?thesis
  proof (intro conjI impI)
    show "lastVelocityY ?q
        = ((\<lambda>v. times64 v (friction (settings p))) ^^ length views) (lastVelocityY p)"
      by (rule a)
    show "frameCallbacks ?q \<noteq> []" by (rule c)
  next
    assume "less_number (Math_abs (lastVelocityY ?q)) (Num 1)"
    then have e: "animationFrame view ?q
        = ?q\<lparr>lastVelocityY := 0, animationFrameId := None, frameCallbacks := []\<rparr>"
      by (rule d)
    show "animationFrameId (animationFrame view ?q) = None"
      and "lastVelocityY (animationFrame view ?q) = 0"
      and "frameCallbacks (animationFrame view ?q) = []"
      and "scrollLog (animationFrame view ?q) = scrollLog ?q"
      by (simp_all add: e)
    then show "animationFrame view' (animationFrame view ?q) = animationFrame view ?q"
      by (simp add: animationFrame_idle)
  qed
qed

theorem inertia_decay_witness:
  "sched_inv slowing \<and> frameCallbacks slowing \<noteq> []
   \<and> getScrollableElement example_view \<noteq> None
   \<and> lastVelocityY slowing = Num 1
   \<and> \<not> less_number (Math_abs (lastVelocityY slowing)) (Num 1)
   \<and> lastVelocityY (frames slowing [example_view])
       = times64 (Num 1) (friction example_settings)
   \<and> lastVelocityY (frames slowing [example_view]) = Num (8286623314361713 / 9007199254740992)
   \<and> frameCallbacks (frames slowing [example_view]) \<noteq> []
   \<and> less_number (Math_abs (lastVelocityY (frames slowing [example_view]))) (Num 1)
   \<and> animationFrameId (animationFrame example_view (frames slowing [example_view])) = None
   \<and> lastVelocityY (animationFrame example_view (frames slowing [example_view])) = 0
   \<and> frameCallbacks (animationFrame example_view (frames slowing [example_view])) = []
   \<and> scrollLog (animationFrame example_view (frames slowing [example_view]))
       = scrollLog (frames slowing [example_view])"
proof -
  have h1: "sched_inv slowing" and h2: "frameCallbacks slowing \<noteq> []"
    and h3: "\<forall>view \<in> set [example_view]. getScrollableElement view \<noteq> None"
    and h4: "\<forall>k < length [example_view].
           \<not> less_number
               (Math_abs (((\<lambda>v. times64 v (friction (settings slowing))) ^^ k)
                  (lastVelocityY slowing)))
               (Num 1)"
    by (simp_all add: slowing_eq sched_inv_def example_view_resolves)
  note t = inertia_decay [OF h1 h2 h3 h4, of example_view example_view]
  have v: "lastVelocityY (frames slowing [example_view])
      = times64 (Num 1) (friction example_settings)"
    using t by (simp add: slowing_eq)
  then have w: "lastVelocityY (frames slowing [example_view])
      = Num (8286623314361713 / 9007199254740992)"
    by (simp add: example_friction double_of_1_friction)
  have l: "less_number (Math_abs (lastVelocityY (frames slowing [example_view]))) (Num 1)"
    by (simp add: w)
  from t l have "animationFrameId (animationFrame example_view (frames slowing [example_view])) = None
     \<and> lastVelocityY (animationFrame example_view (frames slowing [example_view])) = 0
     \<and> frameCallbacks (animationFrame example_view (frames slowing [example_view])) = []
     \<and> scrollLog (animationFrame example_view (frames slowing [example_view]))
         = scrollLog (frames slowing [example_view])
     \<and> frameCallbacks (frames slowing [example_view]) \<noteq> []"
    by blast
  with h1 h2 v w l show ?thesis
    by (simp add: slowing_eq example_view_resolves)
qed

text \<open>
  The velocity is not the exact product: from 10, one tick with the default friction
  (the double written 0.92) leaves a velocity that differs from 10 times that friction.
\<close>

theorem inertia_decay_counterexample:
  "lastVelocityY gliding = Num 10
   \<and> friction (settings gliding) = Num (8286623314361713 / 9007199254740992)
   \<and> getScrollableElement example_view \<noteq> None
   \<and> lastVelocityY (frames gliding [example_view])
       \<noteq> Num (10 * (8286623314361713 / 9007199254740992) ^ 1)"
proof -
  have i: "sched_inv gliding" and f: "frameCallbacks gliding \<noteq> []"
    and v: "\<not> less_number (Math_abs (lastVelocityY gliding)) (Num 1)"
    by (simp_all add: gliding_eq sched_inv_def)
  have "animationFrame example_view gliding
      = gliding\<lparr>lastVelocityY := times64 (lastVelocityY gliding) (friction (settings gliding)),
             animationFrameId := Some (nextFrameHandle gliding),
             frameCallbacks := [nextFrameHandle gliding],
             nextFrameHandle := nextFrameHandle gliding + 1,
             scrollLog := scrollLog gliding @ [(1, lastVelocityY gliding)]\<rparr>"
    using i f example_view_resolves v by (rule animationFrame_continue)
  then have "lastVelocityY (frames gliding [example_view])
      = Num (5179139571476071 / 562949953421312)"
    by (simp add: frames_def gliding_eq example_friction double_of_10_friction)
  then show ?thesis
    by (simp add: gliding_eq example_friction example_view_resolves)
qed




text \<open>
  C3. A move in the Dragging state (a drag is confirmed, a scroll target resolves) whose
  pointer is \<open>d\<close> pixels below the anchor calls \<open>scrollBy(0, -d)\<close> on the target,
  stores \<open>-d\<close> as the latest velocity and rebases the anchor to the pointer's height;
  so the next move scrolls by its own displacement from this one, not from the start
  of the gesture.
\<close>

theorem dragging_move_scroll:
  assumes "isDragging p" and "didDrag p"
    and "getScrollableElement view = Some el"
    and "clientY evt = startY p + d"
  shows "scrollLog (handleMouseMove view evt p) = scrollLog p @ [(el, Num (- d))]
       \<and> lastVelocityY (handleMouseMove view evt p) = Num (- d)
       \<and> startY (handleMouseMove view evt p) = clientY evt
       \<and> isDragging (handleMouseMove view evt p)
       \<and> didDrag (handleMouseMove view evt p)
       \<and> (getScrollableElement view2 = Some el2 \<longrightarrow>
            scrollLog (handleMouseMove view2 evt2 (handleMouseMove view evt p))
              = scrollLog p @ [(el, Num (- d)), (el2, Num (- (clientY evt2 - clientY evt)))])"
  using assms by (simp add: handleMouseMove_def scrollBy_def Let_def)

theorem dragging_move_scroll_witness:
  "isDragging dragging \<and> didDrag dragging
   \<and> getScrollableElement example_view = Some 1
   \<and> clientY (inside 85) = startY dragging + (- 5)
   \<and> scrollLog (handleMouseMove example_view (inside 85) dragging) = [(1, Num 10), (1, Num 5)]
   \<and> lastVelocityY (handleMouseMove example_view (inside 85) dragging) = Num 5
   \<and> startY (handleMouseMove example_view (inside 85) dragging) = 85
   \<and> scrollLog (handleMouseMove example_view (inside 88)
         (handleMouseMove example_view (inside 85) dragging))
       = [(1, Num 10), (1, Num 5), (1, Num (- 3))]"
proof -
  have h1: "isDragging dragging" and h2: "didDrag dragging"
    by (simp_all add: dragging_eq)
  have h3: "getScrollableElement example_view = Some 1"
    by (rule example_view_resolves)
  have h4: "clientY (inside 85) = startY dragging + (- 5)"
    by (simp add: dragging_eq inside_def)
  from dragging_move_scroll [OF h1 h2 h3 h4, of example_view 1 "inside 88"] h1 h2 h3 h4
  show ?thesis
    by (simp add: dragging_eq inside_def)
qed

text \<open>
  C4. A context-menu event has its default action suppressed (and its propagation
  stopped) exactly when \<open>didDrag\<close> is set and the configured button is the right
  button, 2; after any context-menu event \<open>didDrag\<close> is false.
\<close>

theorem context_menu_suppression:
  "defaultPrevented (snd (handleContextMenu evt p)) = (didDrag p \<and> mouseButton (settings p) = 2)
   \<and> propagationStopped (snd (handleContextMenu evt p)) = (didDrag p \<and> mouseButton (settings p) = 2)
   \<and> didDrag (fst (handleContextMenu evt p)) = False"
  by (simp add: handleContextMenu_def untouched_def preventDefault_def stopImmediatePropagation_def)

theorem context_menu_suppression_witness:
  "defaultPrevented (snd (handleContextMenu (inside 90) gliding))
   \<and> \<not> didDrag (fst (handleContextMenu (inside 90) gliding))
   \<and> \<not> defaultPrevented (snd (handleContextMenu (inside 90) armed))"
  using context_menu_suppression [of "inside 90" gliding]
    context_menu_suppression [of "inside 90" armed]
  by (simp add: gliding_eq armed_eq example_settings_def)

text \<open>
  C5, as the code has it. For a pointer-down with the configured button: when the
  condition over ctrl, shift and alt fails, nothing changes and the event is left
  untouched; when it holds (and the target lies in the content region and a scroll
  target resolves) the gesture is armed and the default action suppressed. With
  \<open>ctrl\<close>, \<open>shift\<close> or \<open>alt\<close> configured, the two other of these keys have no
  influence on the outcome; and the meta key never has any, whatever is configured.
\<close>

theorem modifier_gate:
  assumes "button evt = mouseButton (settings p)"
  shows "(\<not> modifier_satisfied (modifierKey (settings p)) evt \<longrightarrow>
            handleMouseDown view evt p = (p, untouched))
       \<and> (modifier_satisfied (modifierKey (settings p)) evt \<longrightarrow>
            closest evt ''.workspace-leaf-content'' \<noteq> None \<longrightarrow>
            getScrollableElement view \<noteq> None \<longrightarrow>
            isDragging (fst (handleMouseDown view evt p))
            \<and> \<not> didDrag (fst (handleMouseDown view evt p))
            \<and> startY (fst (handleMouseDown view evt p)) = clientY evt
            \<and> defaultPrevented (snd (handleMouseDown view evt p)))
       \<and> (modifierKey (settings p) = ModCtrl \<longrightarrow>
            handleMouseDown view (evt\<lparr>shiftKey := s, altKey := a\<rparr>) p = handleMouseDown view evt p)
       \<and> (modifierKey (settings p) = ModShift \<longrightarrow>
            handleMouseDown view (evt\<lparr>ctrlKey := c, altKey := a\<rparr>) p = handleMouseDown view evt p)
       \<and> (modifierKey (settings p) = ModAlt \<longrightarrow>
            handleMouseDown view (evt\<lparr>ctrlKey := c, shiftKey := s\<rparr>) p = handleMouseDown view evt p)
       \<and> handleMouseDown view (evt\<lparr>metaKey := m\<rparr>) p = handleMouseDown view evt p
       \<and> modifier_satisfied (modifierKey (settings p)) (evt\<lparr>metaKey := m\<rparr>)
           = modifier_satisfied (modifierKey (settings p)) evt"
  using assms
  by (cases "modifierKey (settings p)")
     (auto simp: handleMouseDown_def modifier_satisfied_def Let_def preventDefault_def untouched_def
           split: option.splits)

theorem modifier_gate_witness:
  "button (inside 100) = mouseButton (settings (initial (example_settings\<lparr>modifierKey := ModCtrl\<rparr>)))
   \<and> \<not> modifier_satisfied ModCtrl (inside 100)
   \<and> handleMouseDown example_view (inside 100) (initial (example_settings\<lparr>modifierKey := ModCtrl\<rparr>))
       = (initial (example_settings\<lparr>modifierKey := ModCtrl\<rparr>), untouched)
   \<and> modifier_satisfied ModCtrl ((inside 100)\<lparr>ctrlKey := True\<rparr>)
   \<and> isDragging (fst (handleMouseDown example_view ((inside 100)\<lparr>ctrlKey := True\<rparr>)
         (initial (example_settings\<lparr>modifierKey := ModCtrl\<rparr>))))
   \<and> defaultPrevented (snd (handleMouseDown example_view ((inside 100)\<lparr>ctrlKey := True\<rparr>)
         (initial (example_settings\<lparr>modifierKey := ModCtrl\<rparr>))))
   \<and> handleMouseDown example_view ((inside 100)\<lparr>ctrlKey := True, shiftKey := True, altKey := True\<rparr>)
         (initial (example_settings\<lparr>modifierKey := ModCtrl\<rparr>))
       = handleMouseDown example_view ((inside 100)\<lparr>ctrlKey := True\<rparr>)
         (initial (example_settings\<lparr>modifierKey := ModCtrl\<rparr>))
   \<and> handleMouseDown example_view ((inside 100)\<lparr>ctrlKey := True, metaKey := True\<rparr>)
         (initial (example_settings\<lparr>modifierKey := ModCtrl\<rparr>))
       = handleMouseDown example_view ((inside 100)\<lparr>ctrlKey := True\<rparr>)
         (initial (example_settings\<lparr>modifierKey := ModCtrl\<rparr>))"
proof -
  let ?p = "initial (example_settings\<lparr>modifierKey := ModCtrl\<rparr>)"
  have b1: "button (inside 100) = mouseButton (settings ?p)"
    and b2: "button ((inside 100)\<lparr>ctrlKey := True\<rparr>) = mouseButton (settings ?p)"
    by (simp_all add: inside_def initial_def example_settings_def)
  have m: "modifierKey (settings ?p) = ModCtrl"
    by (simp add: initial_def)
  have n: "\<not> modifier_satisfied ModCtrl (inside 100)"
    and y: "modifier_satisfied ModCtrl ((inside 100)\<lparr>ctrlKey := True\<rparr>)"
    and c: "closest ((inside 100)\<lparr>ctrlKey := True\<rparr>) ''.workspace-leaf-content'' \<noteq> None"
    and g: "getScrollableElement example_view \<noteq> None"
    by (simp_all add: modifier_satisfied_def inside_def example_view_resolves)
  from modifier_gate [OF b1, of example_view]
    modifier_gate [OF b2, of example_view True True _ True]
    b1 m n y c g
  show ?thesis by simp
qed

text \<open>
  With \<open>none\<close> configured, a press with the meta key held does not satisfy the
  condition that no modifier key is held, and yet arms the gesture.
\<close>

theorem modifier_gate_counterexample:
  "button ((inside 100)\<lparr>metaKey := True\<rparr>) = mouseButton (settings (initial example_settings))
   \<and> modifierKey (settings (initial example_settings)) = ModNone
   \<and> \<not> modifier_condition ModNone ((inside 100)\<lparr>metaKey := True\<rparr>)
   \<and> isDragging (fst (handleMouseDown example_view ((inside 100)\<lparr>metaKey := True\<rparr>)
         (initial example_settings)))
   \<and> defaultPrevented (snd (handleMouseDown example_view ((inside 100)\<lparr>metaKey := True\<rparr>)
         (initial example_settings)))"
  by (simp add: handleMouseDown_def initial_def example_settings_def inside_def
      modifier_condition_def example_view_resolves preventDefault_def untouched_def Let_def)

text \<open>
  C6, as the code has it. A pointer-down whose target lies outside the content region
  suppresses no default action and leaves \<open>isDragging\<close>, \<open>didDrag\<close>, the anchor and
  the scroll position as they are. When the button or the handler's modifier condition
  (over ctrl, shift and alt) fails, nothing changes at all; when both hold, the inertia
  run is stopped as by \<open>stopInertiaScroll\<close>: the velocity is zeroed and, in a state
  that satisfies the scheduler invariant, the handle is cleared and no callback stays
  scheduled.
\<close>

theorem pointer_down_outside_content:
  assumes "closest evt ''.workspace-leaf-content'' = None"
  shows "fst (handleMouseDown view evt p) =
           (if button evt = mouseButton (settings p)
               \<and> modifier_satisfied (modifierKey (settings p)) evt
            then stopInertiaScroll p else p)
       \<and> snd (handleMouseDown view evt p) = untouched
       \<and> isDragging (fst (handleMouseDown view evt p)) = isDragging p
       \<and> didDrag (fst (handleMouseDown view evt p)) = didDrag p
       \<and> startY (fst (handleMouseDown view evt p)) = startY p
       \<and> scrollLog (fst (handleMouseDown view evt p)) = scrollLog p
       \<and> lastVelocityY (stopInertiaScroll p) = 0
       \<and> (sched_inv p \<longrightarrow>
            animationFrameId (stopInertiaScroll p) = None
            \<and> frameCallbacks (stopInertiaScroll p) = [])"
  using assms
  by (cases "modifierKey (settings p)")
     (auto simp: handleMouseDown_def modifier_satisfied_def Let_def stopInertiaScroll_stops)

theorem pointer_down_outside_content_witness:
  "closest (outside 50) ''.workspace-leaf-content'' = None
   \<and> sched_inv gliding
   \<and> handleMouseDown example_view (outside 50) gliding
       = (gliding\<lparr>lastVelocityY := 0, animationFrameId := None, frameCallbacks := []\<rparr>, untouched)
   \<and> handleMouseDown example_view ((outside 50)\<lparr>button := 0\<rparr>) gliding = (gliding, untouched)"
proof -
  have h1: "closest (outside 50) ''.workspace-leaf-content'' = None"
    and h2: "closest ((outside 50)\<lparr>button := 0\<rparr>) ''.workspace-leaf-content'' = None"
    by (simp_all add: outside_def)
  have i: "sched_inv gliding"
    by (simp add: gliding_eq sched_inv_def)
  have s: "stopInertiaScroll gliding
      = gliding\<lparr>lastVelocityY := 0, animationFrameId := None, frameCallbacks := []\<rparr>"
    by (simp add: gliding_eq stopInertiaScroll_def cancelAnimationFrame_def)
  have b: "button (outside 50) = mouseButton (settings gliding)"
    and m: "modifier_satisfied (modifierKey (settings gliding)) (outside 50)"
    and b0: "button ((outside 50)\<lparr>button := 0\<rparr>) \<noteq> mouseButton (settings gliding)"
    by (simp_all add: gliding_eq outside_def example_settings_def modifier_satisfied_def)
  from pointer_down_outside_content [OF h1, of example_view gliding]
    pointer_down_outside_content [OF h2, of example_view gliding] h1 i s b m b0
  show ?thesis by (simp add: prod_eq_iff)
qed

text \<open>
  The inertia run does not survive such a press: while the content glides with velocity
  10, a press of the right button outside the content region cancels the scheduled tick
  and zeroes the velocity.
\<close>

theorem pointer_down_outside_content_counterexample:
  "closest (outside 50) ''.workspace-leaf-content'' = None
   \<and> fst (handleMouseDown example_view (outside 50) gliding) \<noteq> gliding
   \<and> lastVelocityY gliding = Num 10
   \<and> lastVelocityY (fst (handleMouseDown example_view (outside 50) gliding)) = 0
   \<and> animationFrameId gliding = Some 1
   \<and> animationFrameId (fst (handleMouseDown example_view (outside 50) gliding)) = None
   \<and> frameCallbacks gliding = [1]
   \<and> frameCallbacks (fst (handleMouseDown example_view (outside 50) gliding)) = []"
  by (simp add: gliding_eq outside_def handleMouseDown_def example_settings_def
      stopInertiaScroll_def cancelAnimationFrame_def Let_def)

text \<open>
  C7, as the code has it. \<open>loadSettings\<close> assigns every property of the persisted
  data over the defaults without looking at its value: a field the data lacks keeps
  the default, and a field the data holds takes the persisted value, whatever it is.
  This holds for every property name but \<open>__proto__\<close>, which the assignment never
  makes a property of the settings; in particular it holds for the three settings
  fields.
\<close>

theorem loadSettings_merge:
  "props (loadSettings data) k =
     (if k = ''__proto__'' then None
      else case map_of (rev (ownEnumerable data)) k of
             None \<Rightarrow> map_of (ownEnumerable DEFAULT_SETTINGS) k
           | Some v \<Rightarrow> Some v)"
proof -
  let ?d = "\<lparr>props = map_of (ownEnumerable DEFAULT_SETTINGS), proto = None\<rparr>"
  have l: "loadSettings data = assignFrom data ?d"
    by (simp add: loadSettings_def Object_assign_def assignFrom_defaults)
  have "props ?d ''__proto__'' = None" and "proto ?d = None"
    by (simp_all add: DEFAULT_SETTINGS_def)
  then have "props (assignFrom data ?d) k
      = (if k = ''__proto__'' then None
         else (props ?d ++ map_of (rev (ownEnumerable data))) k)"
    by (rule assignFrom_props)
  then show ?thesis
    unfolding l by (simp add: map_add_def split: option.splits)
qed

theorem loadSettings_merge_witness:
  "props (loadSettings (JObj [(''friction'', JNum 0.85)])) ''friction'' = Some (JNum 0.85)
   \<and> props (loadSettings (JObj [(''friction'', JNum 0.85)])) ''mouseButton'' = Some (JNum 2)
   \<and> props (loadSettings JNull) ''modifierKey'' = Some (JStr ''none'')
   \<and> props (loadSettings (JObj [(''__proto__'', JObj [(''friction'', JNum 5)]),
         (''friction'', JStr ''fast'')])) ''friction'' = Some (JStr ''fast'')
   \<and> props (loadSettings (JObj [(''__proto__'', JObj [(''friction'', JNum 5)]),
         (''friction'', JStr ''fast'')])) ''__proto__'' = None"
  using loadSettings_merge [of "JObj [(''friction'', JNum 0.85)]" "''friction''"]
    loadSettings_merge [of "JObj [(''friction'', JNum 0.85)]" "''mouseButton''"]
    loadSettings_merge [of JNull "''modifierKey''"]
    loadSettings_merge [of "JObj [(''__proto__'', JObj [(''friction'', JNum 5)]),
         (''friction'', JStr ''fast'')]" "''friction''"]
    loadSettings_merge [of "JObj [(''__proto__'', JObj [(''friction'', JNum 5)]),
         (''friction'', JStr ''fast'')]" "''__proto__''"]
  by (simp add: DEFAULT_SETTINGS_def)

text \<open>
  A malformed field does not keep its default: a persisted friction that is not a number
  replaces 0.92.
\<close>

theorem loadSettings_malformed_counterexample:
  "\<not> keeps_default (JObj [(''friction'', JStr ''fast'')]) ''friction''"
  by (simp add: keeps_default_def well_formed_field_def loadSettings_def Object_assign_def
      assignFrom_def put_def DEFAULT_SETTINGS_def)

text \<open>
  C8. In every state the plugin can reach at most one inertia callback is scheduled, and
  the scheduler invariant holds. In any state with that invariant, whatever run is
  scheduled there: a pointer-down that arms a gesture leaves no callback scheduled,
  the handle cleared and the velocity zero, so that a following frame does nothing, and
  after any moves of the new gesture the velocity is still zero or is the amount of a
  scroll that this gesture itself applied last; and the release of a confirmed drag
  schedules exactly one callback, under a fresh handle, with the velocity of the drag.
\<close>

theorem single_tick_and_cancel:
  "length (frameCallbacks (run (initial cfg) evs)) \<le> 1
   \<and> sched_inv (run (initial cfg) evs)
   \<and> (sched_inv p \<and> defaultPrevented (snd (handleMouseDown view evt p)) \<longrightarrow>
        frameCallbacks (fst (handleMouseDown view evt p)) = []
        \<and> animationFrameId (fst (handleMouseDown view evt p)) = None
        \<and> lastVelocityY (fst (handleMouseDown view evt p)) = 0
        \<and> animationFrame view' (fst (handleMouseDown view evt p))
            = fst (handleMouseDown view evt p)
        \<and> (lastVelocityY (moves (fst (handleMouseDown view evt p)) ms) = 0
            \<or> (length (scrollLog p)
                  < length (scrollLog (moves (fst (handleMouseDown view evt p)) ms))
                \<and> snd (last (scrollLog (moves (fst (handleMouseDown view evt p)) ms)))
                    = lastVelocityY (moves (fst (handleMouseDown view evt p)) ms))))
   \<and> (sched_inv p \<and> isDragging p \<and> didDrag p \<and> button up = mouseButton (settings p) \<longrightarrow>
        frameCallbacks (handleMouseUp up p) = [nextFrameHandle p]
        \<and> animationFrameId (handleMouseUp up p) = Some (nextFrameHandle p)
        \<and> lastVelocityY (handleMouseUp up p) = lastVelocityY p
        \<and> sched_inv (handleMouseUp up p))"
proof (intro conjI impI)
  have inv: "sched_inv (run (initial cfg) evs)" by (rule sched_inv_reachable)
  then show "length (frameCallbacks (run (initial cfg) evs)) \<le> 1"
    by (rule sched_inv_length)
  show "sched_inv (run (initial cfg) evs)" by (rule inv)
next
  let ?q = "fst (handleMouseDown view evt p)"
  assume h: "sched_inv p \<and> defaultPrevented (snd (handleMouseDown view evt p))"
  then have inv: "sched_inv p" by simp
  from h have q: "?q = (stopInertiaScroll p)\<lparr>isDragging := True, startY := clientY evt,
      didDrag := False, lastVelocityY := 0\<rparr>"
    by (intro handleMouseDown_armed) simp
  show a: "frameCallbacks ?q = []" and "animationFrameId ?q = None" and b: "lastVelocityY ?q = 0"
    by (simp_all add: q stopInertiaScroll_stops [OF inv])
  from a show "animationFrame view' ?q = ?q"
    by (rule animationFrame_idle)
  have c: "scrollLog ?q = scrollLog p"
    by (simp add: q)
  from moves_velocity [of ?q "length (scrollLog p)" ms]
  show "lastVelocityY (moves ?q ms) = 0
            \<or> (length (scrollLog p) < length (scrollLog (moves ?q ms))
                \<and> snd (last (scrollLog (moves ?q ms))) = lastVelocityY (moves ?q ms))"
    using b c by simp
next
  assume h: "sched_inv p \<and> isDragging p \<and> didDrag p \<and> button up = mouseButton (settings p)"
  let ?s = "p\<lparr>isDragging := False, bodyDragging := False\<rparr>"
  have inv: "sched_inv ?s"
    using h by (simp add: sched_inv_def)
  have up: "handleMouseUp up p = startInertiaScroll ?s"
    using h by (simp add: handleMouseUp_def Let_def)
  show "frameCallbacks (handleMouseUp up p) = [nextFrameHandle p]"
    and "animationFrameId (handleMouseUp up p) = Some (nextFrameHandle p)"
    and "lastVelocityY (handleMouseUp up p) = lastVelocityY p"
    and "sched_inv (handleMouseUp up p)"
    by (simp_all add: up startInertiaScroll_starts [OF inv])
qed

theorem single_tick_and_cancel_witness:
  "frameCallbacks gliding = [1] \<and> animationFrameId gliding = Some 1
   \<and> lastVelocityY gliding = Num 10
   \<and> sched_inv gliding
   \<and> defaultPrevented (snd (handleMouseDown example_view (inside 100) gliding))
   \<and> frameCallbacks (fst (handleMouseDown example_view (inside 100) gliding)) = []
   \<and> animationFrameId (fst (handleMouseDown example_view (inside 100) gliding)) = None
   \<and> lastVelocityY (fst (handleMouseDown example_view (inside 100) gliding)) = 0
   \<and> animationFrame example_view (fst (handleMouseDown example_view (inside 100) gliding))
       = fst (handleMouseDown example_view (inside 100) gliding)
   \<and> lastVelocityY (moves (fst (handleMouseDown example_view (inside 100) gliding))
         [(example_view, inside 93)]) = Num 7
   \<and> length (scrollLog gliding)
       < length (scrollLog (moves (fst (handleMouseDown example_view (inside 100) gliding))
           [(example_view, inside 93)]))
   \<and> sched_inv dragging \<and> isDragging dragging \<and> didDrag dragging
   \<and> button (inside 90) = mouseButton (settings dragging)
   \<and> frameCallbacks dragging = []
   \<and> frameCallbacks (handleMouseUp (inside 90) dragging) = [1]
   \<and> animationFrameId (handleMouseUp (inside 90) dragging) = Some 1
   \<and> lastVelocityY (handleMouseUp (inside 90) dragging) = Num 10"
proof -
  have g: "frameCallbacks gliding = [1] \<and> animationFrameId gliding = Some 1
      \<and> lastVelocityY gliding = Num 10 \<and> sched_inv gliding"
    by (simp add: gliding_eq sched_inv_def)
  have a: "defaultPrevented (snd (handleMouseDown example_view (inside 100) gliding))"
    by (simp add: handleMouseDown_def gliding_eq example_settings_def inside_def
        example_view_resolves preventDefault_def untouched_def Let_def)
  have q: "fst (handleMouseDown example_view (inside 100) gliding)
      = gliding\<lparr>isDragging := True, startY := 100, didDrag := False, lastVelocityY := 0,
          animationFrameId := None, frameCallbacks := []\<rparr>"
    by (simp add: handleMouseDown_def gliding_eq example_settings_def inside_def
        example_view_resolves stopInertiaScroll_def cancelAnimationFrame_def Let_def)
  have m: "lastVelocityY (moves (fst (handleMouseDown example_view (inside 100) gliding))
         [(example_view, inside 93)]) = Num 7
     \<and> length (scrollLog gliding)
       < length (scrollLog (moves (fst (handleMouseDown example_view (inside 100) gliding))
           [(example_view, inside 93)]))"
    unfolding q
    by (simp add: moves_def handleMouseMove_def example_view_resolves inside_def gliding_eq
        DRAG_THRESHOLD_def scrollBy_def Let_def)
  have d: "sched_inv dragging \<and> isDragging dragging \<and> didDrag dragging
      \<and> button (inside 90) = mouseButton (settings dragging) \<and> frameCallbacks dragging = []
      \<and> nextFrameHandle dragging = 1 \<and> lastVelocityY dragging = Num 10"
    by (simp add: dragging_eq sched_inv_def inside_def example_settings_def)
  from single_tick_and_cancel [of example_settings "[]" gliding example_view "inside 100"
      example_view "[(example_view, inside 93)]" "inside 90"]
    single_tick_and_cancel [of example_settings "[]" dragging example_view "inside 100"
      example_view "[]" "inside 90"]
    g a m d
  show ?thesis by simp
qed

text \<open>
  C9. While the scroll target does not resolve, a move changes nothing, so after any
  number of such moves the drag state is what it was, until the pointer-up of the
  gesture clears \<open>isDragging\<close>; and a scheduled inertia tick that finds no scroll
  target clears the handle, zeroes the velocity, scrolls nothing and schedules nothing.
\<close>

theorem unresolvable_target:
  assumes "getScrollableElement view = None"
  shows "handleMouseMove view evt p = p
       \<and> ((\<forall>(v, e) \<in> set ms. getScrollableElement v = None) \<longrightarrow>
            moves p ms = p
            \<and> (isDragging p \<and> button up = mouseButton (settings p) \<longrightarrow>
                 \<not> isDragging (handleMouseUp up (moves p ms))))
       \<and> (frameCallbacks (run (initial cfg) evs) \<noteq> [] \<longrightarrow>
            animationFrameId (animationFrame view (run (initial cfg) evs)) = None
            \<and> lastVelocityY (animationFrame view (run (initial cfg) evs)) = 0
            \<and> frameCallbacks (animationFrame view (run (initial cfg) evs)) = []
            \<and> scrollLog (animationFrame view (run (initial cfg) evs))
                = scrollLog (run (initial cfg) evs))"
proof (intro conjI impI)
  show "handleMouseMove view evt p = p"
    using assms by (rule handleMouseMove_unresolvable)
next
  assume "\<forall>(v, e) \<in> set ms. getScrollableElement v = None"
  then show m: "moves p ms = p"
    by (rule moves_unresolvable)
  assume "isDragging p \<and> button up = mouseButton (settings p)"
  then show "\<not> isDragging (handleMouseUp up (moves p ms))"
    by (simp add: m handleMouseUp_def Let_def startInertiaScroll_def requestAnimationFrame_def
        cancelAnimationFrame_def)
next
  assume a: "frameCallbacks (run (initial cfg) evs) \<noteq> []"
  have "animationFrame view (run (initial cfg) evs)
      = (run (initial cfg) evs)\<lparr>lastVelocityY := 0, animationFrameId := None, frameCallbacks := []\<rparr>"
    using sched_inv_reachable a assms by (simp add: animationFrame_stop)
  then show "animationFrameId (animationFrame view (run (initial cfg) evs)) = None"
    and "lastVelocityY (animationFrame view (run (initial cfg) evs)) = 0"
    and "frameCallbacks (animationFrame view (run (initial cfg) evs)) = []"
    and "scrollLog (animationFrame view (run (initial cfg) evs)) = scrollLog (run (initial cfg) evs)"
    by simp_all
qed

theorem unresolvable_target_witness:
  "getScrollableElement None = None
   \<and> handleMouseMove None (inside 50) dragging = dragging
   \<and> moves dragging [(None, inside 50), (None, inside 20)] = dragging
   \<and> isDragging dragging \<and> button (inside 20) = mouseButton (settings dragging)
   \<and> \<not> isDragging (handleMouseUp (inside 20) (moves dragging [(None, inside 50), (None, inside 20)]))
   \<and> frameCallbacks gliding \<noteq> []
   \<and> animationFrameId (animationFrame None gliding) = None
   \<and> lastVelocityY (animationFrame None gliding) = 0
   \<and> frameCallbacks (animationFrame None gliding) = []
   \<and> scrollLog (animationFrame None gliding) = scrollLog gliding"
proof -
  have h: "getScrollableElement None = None"
    by (simp add: getScrollableElement_def)
  have m: "\<forall>(v, e) \<in> set [(None, inside 50), (None, inside 20)]. getScrollableElement v = None"
    by (simp add: h)
  have d: "isDragging dragging \<and> button (inside 20) = mouseButton (settings dragging)"
    by (simp add: dragging_eq inside_def example_settings_def)
  have f: "frameCallbacks gliding \<noteq> []"
    by (simp add: gliding_eq)
  from unresolvable_target [OF h, of "inside 50" dragging "[(None, inside 50), (None, inside 20)]"
      "inside 20" example_settings
      "[(example_view, MouseDown (inside 100)), (example_view, MouseMove (inside 90)),
        (example_view, MouseUp (inside 90))]",
      folded gliding_def] h m d f
  show ?thesis by auto
qed




end
